theory Spec2Isabelle
  imports Main "HOL-Library.Sublist" "HOL-Library.AList" "HOL-Library.Word"
begin

section \<open>Python values\<close>

text \<open>
  A decoded JSON document. A Python dict is an association list with distinct keys; the
  order of the list is the order in which the dict is iterated. Numbers are integers.
\<close>

datatype json =
    JNull
  | JBool bool
  | JNum int
  | JStr string
  | JArr "json list"
  | JObj "(string \<times> json) list"

datatype error =
  KeyError | TypeError | AttributeError | RuntimeError | ValueError | IndexError | EmptyError

text \<open>\<open>str.lower()\<close> on ASCII text.\<close>

definition lower_char :: "char \<Rightarrow> char" where
  "lower_char c =
     (case map_of (zip ''ABCDEFGHIJKLMNOPQRSTUVWXYZ'' ''abcdefghijklmnopqrstuvwxyz'') c of
        None \<Rightarrow> c
      | Some l \<Rightarrow> l)"

definition lower :: "string \<Rightarrow> string" where
  "lower s = map lower_char s"

text \<open>\<open>d[k]\<close>: a missing key raises KeyError, subscripting a non-dict with a string raises
  TypeError.\<close>

definition get_item :: "json \<Rightarrow> string \<Rightarrow> error + json" where
  "get_item d k =
     (case d of
        JObj kvs \<Rightarrow> (case map_of kvs k of None \<Rightarrow> Inl KeyError | Some v \<Rightarrow> Inr v)
      | _ \<Rightarrow> Inl TypeError)"

text \<open>\<open>d[k] = v\<close>: only a dict accepts a string subscript.\<close>

definition set_item :: "json \<Rightarrow> string \<Rightarrow> json \<Rightarrow> error + json" where
  "set_item d k v =
     (case d of JObj kvs \<Rightarrow> Inr (JObj (AList.update k v kvs)) | _ \<Rightarrow> Inl TypeError)"

text \<open>\<open>for x in v\<close>: a list yields its elements, a dict its keys, a string its characters;
  anything else is not iterable.\<close>

definition py_iter :: "json \<Rightarrow> error + json list" where
  "py_iter v =
     (case v of
        JArr xs \<Rightarrow> Inr xs
      | JObj kvs \<Rightarrow> Inr (map (\<lambda>kv. JStr (fst kv)) kvs)
      | JStr s \<Rightarrow> Inr (map (\<lambda>c. JStr [c]) s)
      | _ \<Rightarrow> Inl TypeError)"

text \<open>A value used where the code needs a string (a URI to hash, \<open>.lower()\<close>, \<open>.upper()\<close>).\<close>

definition as_str :: "error \<Rightarrow> json \<Rightarrow> error + string" where
  "as_str e v = (case v of JStr s \<Rightarrow> Inr s | _ \<Rightarrow> Inl e)"

section \<open>Supporting structures\<close>

record position =
  p_href :: string
  p_type :: string
  p_title :: json

text \<open>
  Modelled from the spec: leakyLIFO.LeakyLIFO is imported by chainCrawler.py and its file
  is not part of the sources. Spec 3 and 4.2: at most \<open>depth\<close> positions; a push beyond
  capacity discards the oldest entry; pop removes and returns the most recently pushed
  entry and signals an error on an empty stack. The newest entry is the head of the list.
\<close>

record lifo =
  depth :: nat
  entries :: "position list"

definition lifo_push :: "position \<Rightarrow> lifo \<Rightarrow> lifo" where
  "lifo_push p h = h\<lparr>entries := take (depth h) (p # entries h)\<rparr>"

definition lifo_pop :: "lifo \<Rightarrow> error + (position \<times> lifo)" where
  "lifo_pop h =
     (case entries h of [] \<Rightarrow> Inl EmptyError | p # ps \<Rightarrow> Inr (p, h\<lparr>entries := ps\<rparr>))"

definition lifo_asList :: "lifo \<Rightarrow> position list" where
  "lifo_asList h = entries h"

text \<open>
  Modelled from the spec: crawlerCache.CrawlerCacheWithCollisionHistory is imported by
  chainCrawler.py and its file is not part of the sources. Spec 3 and 4.1: a table of
  \<open>2 ^ maskBits\<close> slots indexed by the low \<open>maskBits\<close> bits of the 64-bit fingerprint of
  the URI; \<open>check\<close> compares the slot with the fingerprint; \<open>put_and_collision\<close> reports
  whether a different fingerprint occupied the slot and writes unconditionally; \<open>clear\<close>
  empties the table. The fingerprint function (CityHash64) is a parameter.
\<close>

record cache =
  mask_bits :: nat
  table :: "64 word option list"

definition cache_new :: "nat \<Rightarrow> cache" where
  "cache_new n = \<lparr>mask_bits = n, table = replicate (2 ^ n) None\<rparr>"

definition slot :: "cache \<Rightarrow> 64 word \<Rightarrow> nat" where
  "slot c w = unat w mod 2 ^ mask_bits c"

definition cache_check :: "(string \<Rightarrow> 64 word) \<Rightarrow> cache \<Rightarrow> string \<Rightarrow> bool" where
  "cache_check fp c uri = (table c ! slot c (fp uri) = Some (fp uri))"

definition cache_put_and_collision ::
  "(string \<Rightarrow> 64 word) \<Rightarrow> cache \<Rightarrow> string \<Rightarrow> bool \<times> cache" where
  "cache_put_and_collision fp c uri =
     (let w = fp uri; i = slot c w
      in (case table c ! i of None \<Rightarrow> False | Some v \<Rightarrow> v \<noteq> w,
          c\<lparr>table := (table c)[i := Some w]\<rparr>))"

definition cache_clear :: "cache \<Rightarrow> cache" where
  "cache_clear c = c\<lparr>table := replicate (2 ^ mask_bits c) None\<rparr>"

text \<open>
  Modelled from the spec: timeDecaySet.TimeDecaySet is imported by chainCrawler.py and its
  file is not part of the sources. Spec 3 and 4.3: a mapping from URI to the time it was
  last added; an entry older than \<open>persistence\<close> counts as absent; \<open>add\<close> inserts or
  refreshes and reports whether the URI was absent or expired; \<open>size\<close> and \<open>asList\<close> leave
  expired entries out. The clock reading is an argument of each operation.
\<close>

record decay_set =
  persistence :: int
  stamps :: "(string \<times> int) list"

definition live :: "decay_set \<Rightarrow> int \<Rightarrow> int \<Rightarrow> bool" where
  "live d now t = (now - t \<le> persistence d)"

definition tds_add :: "int \<Rightarrow> string \<Rightarrow> decay_set \<Rightarrow> bool \<times> decay_set" where
  "tds_add now uri d =
     (case map_of (stamps d) uri of
        None \<Rightarrow> True
      | Some t \<Rightarrow> \<not> live d now t,
      d\<lparr>stamps := AList.update uri now (stamps d)\<rparr>)"

definition tds_asList :: "int \<Rightarrow> decay_set \<Rightarrow> string list" where
  "tds_asList now d = map fst (filter (\<lambda>kv. live d now (snd kv)) (stamps d))"

definition tds_size :: "int \<Rightarrow> decay_set \<Rightarrow> nat" where
  "tds_size now d = length (tds_asList now d)"

section \<open>The crawler\<close>

datatype scalar = SNull | SBool bool | SNum int | SStr string

text \<open>
  The fields of a ChainCrawler instance. The title of the current position is whatever the
  link that led there carried under \<open>title\<close>. \<open>sink\<close> is the queue or socket the instance pushes
  to (\<open>None\<close>: neither is set, URIs are only logged). The three query fields are set by
  \<open>crawl\<close>; expected values of extra attributes are scalars.
\<close>

record crawler =
  entry_point :: string
  current_uri :: string
  current_uri_type :: string
  current_uri_title :: json
  crawl_history :: lifo
  found_resources :: decay_set
  cache :: cache
  sink :: "string list option"
  find_called :: bool
  filter_keywords :: "string list"
  qry_resource_type :: "string option"
  qry_resource_plural :: "string list"
  qry_resource_title :: "string option"
  qry_extra :: "(string \<times> scalar) list option"

text \<open>What the instance cannot decide itself: the hash function, the network, the random
  number generator and the clock, the last three indexed by the number of the step.\<close>

datatype response = ConnectionError | Failed error | Body json

record world =
  fingerprint :: "string \<Rightarrow> 64 word"
  fetch :: "nat \<Rightarrow> string \<Rightarrow> response"
  random :: "nat \<Rightarrow> nat"
  clock :: "nat \<Rightarrow> int"

definition init ::
  "string \<Rightarrow> nat \<Rightarrow> nat \<Rightarrow> int \<Rightarrow> string list \<Rightarrow> crawler" where
  "init entry cache_table_mask_length track_search_depth found_set_persistence keywords =
     \<lparr>entry_point = entry,
      current_uri = entry,
      current_uri_type = ''entry_point'',
      current_uri_title = JStr ''entry_point'',
      crawl_history = \<lparr>depth = track_search_depth, entries = []\<rparr>,
      found_resources = \<lparr>persistence = found_set_persistence, stamps = []\<rparr>,
      cache = cache_new cache_table_mask_length,
      sink = None,
      find_called = False,
      filter_keywords = [''edit'', ''create'', ''self'', ''curies'', ''websocket''] @ keywords,
      qry_resource_type = None,
      qry_resource_plural = [],
      qry_resource_title = None,
      qry_extra = None\<rparr>"

subsection \<open>Link extraction\<close>

text \<open>The body of the loop over an \<open>items\<close> collection: the first assignment is guarded by a
  try whose handler repeats the assignment with \<open>UNKNOWN\<close>.\<close>

definition items_record :: "string \<Rightarrow> json \<Rightarrow> error + json" where
  "items_record ty it =
     (case (case set_item it ''type'' (JStr ty) of
              Inl _ \<Rightarrow> set_item it ''type'' (JStr ''UNKNOWN'')
            | Inr it' \<Rightarrow> Inr it') of
        Inl e \<Rightarrow> Inl e
      | Inr it' \<Rightarrow> set_item it' ''from_item_list'' (JBool True))"

fun flatten_items :: "string \<Rightarrow> json list \<Rightarrow> json list \<Rightarrow> error + json list" where
  "flatten_items ty [] crawl_links = Inr crawl_links"
| "flatten_items ty (it # its) crawl_links =
     (case items_record ty it of
        Inl e \<Rightarrow> Inl e
      | Inr r \<Rightarrow> flatten_items ty its (crawl_links @ [r]))"

definition link_record :: "string \<Rightarrow> json \<Rightarrow> error + json" where
  "link_record key item =
     (case set_item item ''type'' (JStr key) of
        Inl e \<Rightarrow> Inl e
      | Inr item' \<Rightarrow> set_item item' ''from_item_list'' (JBool False))"

definition filtered :: "string list \<Rightarrow> string \<Rightarrow> bool" where
  "filtered keywords key = (\<exists>substring \<in> set keywords. sublist substring (lower key))"

fun flatten_loop ::
  "crawler \<Rightarrow> (string \<times> json) list \<Rightarrow> json list \<Rightarrow> error + json list" where
  "flatten_loop self [] crawl_links = Inr crawl_links"
| "flatten_loop self ((key, item) # rest) crawl_links =
     (if key = ''items'' then
        (case py_iter item of
           Inl e \<Rightarrow> Inl e
         | Inr its \<Rightarrow>
             (case flatten_items (current_uri_type self) its crawl_links of
                Inl e \<Rightarrow> Inl e
              | Inr crawl_links' \<Rightarrow> flatten_loop self rest crawl_links'))
      else if \<not> filtered (filter_keywords self) key then
        (if item \<noteq> JNull then
           (case link_record key item of
              Inl e \<Rightarrow> Inl e
            | Inr r \<Rightarrow> flatten_loop self rest (crawl_links @ [r]))
         else flatten_loop self rest crawl_links)
      else flatten_loop self rest crawl_links)"

definition flatten_filter_link_array :: "crawler \<Rightarrow> json \<Rightarrow> error + json list" where
  "flatten_filter_link_array self req_links =
     (case req_links of
        JObj kvs \<Rightarrow> flatten_loop self kvs []
      | _ \<Rightarrow> Inl AttributeError)"

text \<open>The annotation loop of \<open>get_external_links\<close>: the cache hashes the href, which has to be
  there and has to be a string.\<close>

fun annotate :: "(string \<Rightarrow> 64 word) \<Rightarrow> cache \<Rightarrow> json list \<Rightarrow> error + json list" where
  "annotate fp c [] = Inr []"
| "annotate fp c (link # links) =
     (case get_item link ''href'' of
        Inl e \<Rightarrow> Inl e
      | Inr h \<Rightarrow>
          (case as_str TypeError h of
             Inl e \<Rightarrow> Inl e
           | Inr uri \<Rightarrow>
               (case set_item link ''in_cache'' (JBool (cache_check fp c uri)) of
                  Inl e \<Rightarrow> Inl e
                | Inr link' \<Rightarrow>
                    (case annotate fp c links of
                       Inl e \<Rightarrow> Inl e
                     | Inr links' \<Rightarrow> Inr (link' # links')))))"

text \<open>The history filter compares each link record, a dict, with the hrefs of the history,
  which are strings.\<close>

definition get_external_links :: "world \<Rightarrow> crawler \<Rightarrow> json \<Rightarrow> error + json list" where
  "get_external_links w self req_links =
     (case flatten_filter_link_array self req_links of
        Inl e \<Rightarrow> Inl e
      | Inr crawl_links \<Rightarrow>
          annotate (fingerprint w) (cache self)
            (filter (\<lambda>x. x \<notin> set (map (\<lambda>y. JStr (p_href y)) (lifo_asList (crawl_history self))))
               crawl_links))"

subsection \<open>Query matching\<close>

text \<open>Truth value of a Python object.\<close>

definition truthy :: "json \<Rightarrow> bool" where
  "truthy v =
     (case v of
        JNull \<Rightarrow> False
      | JBool b \<Rightarrow> b
      | JNum n \<Rightarrow> n \<noteq> 0
      | JStr s \<Rightarrow> s \<noteq> []
      | JArr xs \<Rightarrow> xs \<noteq> []
      | JObj kvs \<Rightarrow> kvs \<noteq> [])"

text \<open>\<open>actual_val == val\<close> for a scalar \<open>val\<close>; a Python bool is the integer 0 or 1.\<close>

fun py_eq :: "json \<Rightarrow> scalar \<Rightarrow> bool" where
  "py_eq JNull SNull = True"
| "py_eq (JBool a) (SBool b) = (a = b)"
| "py_eq (JBool a) (SNum n) = ((if a then 1 else 0) = n)"
| "py_eq (JNum n) (SBool b) = (n = (if b then 1 else 0))"
| "py_eq (JNum m) (SNum n) = (m = n)"
| "py_eq (JStr s) (SStr t) = (s = t)"
| "py_eq _ _ = False"

definition pluralize_resource_name :: "string \<Rightarrow> string \<Rightarrow> string list" where
  "pluralize_resource_name resource_name namespace =
     [namespace @ resource_name @ ''s'', namespace @ resource_name @ ''es'']"

text \<open>The type test of \<open>query_link_array\<close>: \<open>in\<close> between two strings is the substring
  test, and the collection flag is read only when some plural form passed it.\<close>

definition link_type_matches :: "crawler \<Rightarrow> json \<Rightarrow> error + bool" where
  "link_type_matches self link_item =
     (case qry_resource_type self of
        None \<Rightarrow> Inr True
      | Some qt \<Rightarrow>
          (case get_item link_item ''type'' of
             Inl e \<Rightarrow> Inl e
           | Inr tv \<Rightarrow>
               (case as_str AttributeError tv of
                  Inl e \<Rightarrow> Inl e
                | Inr ty \<Rightarrow>
                    if \<exists>x \<in> set (qry_resource_plural self). sublist (lower ty) x then
                      (case get_item link_item ''from_item_list'' of
                         Inl e \<Rightarrow> Inl e
                       | Inr fl \<Rightarrow> Inr (truthy fl \<or> lower ty = qt))
                    else Inr (lower ty = qt))))"

definition link_title_matches :: "crawler \<Rightarrow> json \<Rightarrow> error + bool" where
  "link_title_matches self link_item =
     (case qry_resource_title self of
        None \<Rightarrow> Inr True
      | Some qt \<Rightarrow>
          (case get_item link_item ''title'' of
             Inl e \<Rightarrow> Inl e
           | Inr tv \<Rightarrow>
               (case as_str AttributeError tv of
                  Inl e \<Rightarrow> Inl e
                | Inr t \<Rightarrow> Inr (lower t = qt))))"

text \<open>One round of the loop of \<open>query_link_array\<close>: the href of the link when it matches.\<close>

definition link_match :: "crawler \<Rightarrow> json \<Rightarrow> error + string option" where
  "link_match self link_item =
     (case get_item link_item ''href'' of
        Inl e \<Rightarrow> Inl e
      | Inr hv \<Rightarrow>
          (case link_type_matches self link_item of
             Inl e \<Rightarrow> Inl e
           | Inr a \<Rightarrow>
               (case link_title_matches self link_item of
                  Inl e \<Rightarrow> Inl e
                | Inr b \<Rightarrow>
                    if a \<and> b then
                      (case as_str TypeError hv of Inl e \<Rightarrow> Inl e | Inr h \<Rightarrow> Inr (Some h))
                    else Inr None)))"

fun query_link_loop :: "crawler \<Rightarrow> json list \<Rightarrow> string list \<Rightarrow> error + string list" where
  "query_link_loop self [] matching_uris = Inr matching_uris"
| "query_link_loop self (link_item # rest) matching_uris =
     (case link_match self link_item of
        Inl e \<Rightarrow> Inl e
      | Inr None \<Rightarrow> query_link_loop self rest matching_uris
      | Inr (Some h) \<Rightarrow> query_link_loop self rest (matching_uris @ [h]))"

definition query_link_array :: "crawler \<Rightarrow> json list \<Rightarrow> error + string list" where
  "query_link_array self crawl_links = query_link_loop self crawl_links []"

text \<open>The loop over the extra attributes: a failing lookup is caught and counts as a
  mismatch.\<close>

definition extra_matches :: "json \<Rightarrow> string \<times> scalar \<Rightarrow> bool" where
  "extra_matches js kv =
     (case get_item js (fst kv) of Inl _ \<Rightarrow> False | Inr actual_val \<Rightarrow> py_eq actual_val (snd kv))"

definition query_current_node :: "crawler \<Rightarrow> json \<Rightarrow> error + string list" where
  "query_current_node self js =
     (case (case qry_resource_type self of
              None \<Rightarrow> Inr True
            | Some qt \<Rightarrow>
                Inr ((\<exists>x \<in> set (qry_resource_plural self). sublist (lower (current_uri_type self)) x)
                     \<or> lower (current_uri_type self) = qt)) of
        Inl e \<Rightarrow> Inl e
      | Inr a \<Rightarrow>
          (case (case qry_resource_title self of
                   None \<Rightarrow> Inr True
                 | Some qt \<Rightarrow>
                     (case as_str AttributeError (current_uri_title self) of
                        Inl e \<Rightarrow> Inl e
                      | Inr t \<Rightarrow> Inr (lower t = qt))) of
             Inl e \<Rightarrow> Inl e
           | Inr b \<Rightarrow>
               (let c = (case qry_extra self of
                           None \<Rightarrow> True
                         | Some extra \<Rightarrow> list_all (extra_matches js) extra)
                in Inr (if a \<and> b \<and> c then [current_uri self] else []))))"

subsection \<open>Delivery\<close>

fun push_uris_to_queue :: "int \<Rightarrow> string list \<Rightarrow> crawler \<Rightarrow> bool \<times> crawler" where
  "push_uris_to_queue now [] self = (False, self)"
| "push_uris_to_queue now (uri # uris) self =
     (let (new, fr) = tds_add now uri (found_resources self);
          self' = self\<lparr>found_resources := fr,
                      sink := (if new then map_option (\<lambda>q. q @ [uri]) (sink self) else sink self)\<rparr>;
          (found_one, self'') = push_uris_to_queue now uris self'
      in (new \<or> found_one, self''))"

subsection \<open>Namespace shorthand\<close>

text \<open>
  \<open>re.sub(r"\{.*\}", repl, s)\<close>: a match starts at an opening brace that has a closing
  brace after it on the same line and runs to the last closing brace of that line; the
  search goes on behind the match. A backslash in the replacement starts an escape
  sequence of the template language of \<open>re\<close>, which is not modelled: such a replacement is
  reported as the error that an invalid escape raises.
\<close>

definition after_match :: "string \<Rightarrow> string" where
  "after_match cs =
     rev (takeWhile (\<lambda>x. x \<noteq> CHR ''}'') (rev (takeWhile (\<lambda>x. x \<noteq> CHR 0x0A) cs)))
       @ dropWhile (\<lambda>x. x \<noteq> CHR 0x0A) cs"

function sub_braces :: "string \<Rightarrow> string \<Rightarrow> string" where
  "sub_braces repl [] = []"
| "sub_braces repl (c # cs) =
     (if c = CHR ''{'' \<and> CHR ''}'' \<in> set (takeWhile (\<lambda>x. x \<noteq> CHR 0x0A) cs)
      then repl @ sub_braces repl (after_match cs)
      else c # sub_braces repl cs)"
  by pat_completeness auto

lemma length_after_match: "length (after_match cs) \<le> length cs"
proof -
  let ?line = "takeWhile (\<lambda>x. x \<noteq> CHR 0x0A) cs"
  have "length (takeWhile (\<lambda>x. x \<noteq> CHR ''}'') (rev ?line)) \<le> length ?line"
    using length_takeWhile_le [of "\<lambda>x. x \<noteq> CHR ''}''" "rev ?line"] by simp
  moreover have "length ?line + length (dropWhile (\<lambda>x. x \<noteq> CHR 0x0A) cs) = length cs"
    by (induction cs) auto
  ultimately show ?thesis by (simp add: after_match_def)
qed

termination sub_braces
  by (relation "measure (\<lambda>(repl, s). length s)") (auto simp: length_after_match less_Suc_eq_le)

definition re_sub :: "string \<Rightarrow> string \<Rightarrow> error + string" where
  "re_sub repl s = (if CHR 0x5C \<in> set repl then Inl ValueError else Inr (sub_braces repl s))"

text \<open>\<open>curie['name'] + ':'\<close>.\<close>

definition curie_prefix :: "json \<Rightarrow> error + string" where
  "curie_prefix curie =
     (case get_item curie ''name'' of
        Inl e \<Rightarrow> Inl e
      | Inr nv \<Rightarrow> (case as_str TypeError nv of Inl e \<Rightarrow> Inl e | Inr n \<Rightarrow> Inr (n @ '':'')))"

text \<open>The full relation name for the part of the key behind the prefix.\<close>

definition curie_target :: "json \<Rightarrow> string \<Rightarrow> error + string" where
  "curie_target curie replaceString =
     (case get_item curie ''href'' of
        Inl e \<Rightarrow> Inl e
      | Inr hv \<Rightarrow>
          (case as_str TypeError hv of Inl e \<Rightarrow> Inl e | Inr newIndex \<Rightarrow> re_sub replaceString newIndex))"

text \<open>
  The inner loop, over the keys of the link section, for one curie. The loop body changes
  the dict it iterates over: the iterator raises RuntimeError as soon as it is asked for
  the next key of a dict whose size is not the size \<open>n\<close> it had when the loop started. The
  keys it yields are taken to be the keys the dict had at that moment, in their order.
  The result is the dict as the loop left it, with the exception that stopped it, if any.
\<close>

fun curie_loop ::
  "json \<Rightarrow> nat \<Rightarrow> string list \<Rightarrow> (string \<times> json) list \<Rightarrow> error option \<times> (string \<times> json) list" where
  "curie_loop curie n [] links = (if length links \<noteq> n then Some RuntimeError else None, links)"
| "curie_loop curie n (key # keys) links =
     (if length links \<noteq> n then (Some RuntimeError, links)
      else
        (case curie_prefix curie of
           Inl e \<Rightarrow> (Some e, links)
         | Inr pre \<Rightarrow>
             if prefix pre key then
               (case curie_target curie (drop (length pre) key) of
                  Inl e \<Rightarrow> (Some e, links)
                | Inr newIndex \<Rightarrow>
                    (case map_of links key of
                       None \<Rightarrow> (Some KeyError, links)
                     | Some v \<Rightarrow>
                         curie_loop curie n keys (AList.delete key (AList.update newIndex v links))))
             else curie_loop curie n keys links))"

fun curies_loop ::
  "json list \<Rightarrow> (string \<times> json) list \<Rightarrow> error option \<times> (string \<times> json) list" where
  "curies_loop [] links = (None, links)"
| "curies_loop (curie # curies) links =
     (case curie_loop curie (length links) (map fst links) links of
        (Some e, links') \<Rightarrow> (Some e, links')
      | (None, links') \<Rightarrow> curies_loop curies links')"

text \<open>Every exception raised inside the try is caught; what was moved before it stays
  moved, and the curies section is deleted only when the loops ran to their end.\<close>

definition apply_hal_curies :: "json \<Rightarrow> bool \<Rightarrow> json" where
  "apply_hal_curies js del_curies =
     (case js of
        JObj doc \<Rightarrow>
          (case map_of doc ''_links'' of
             Some (JObj links) \<Rightarrow>
               (case map_of links ''curies'' of
                  None \<Rightarrow> js
                | Some curies \<Rightarrow>
                    (case py_iter curies of
                       Inl _ \<Rightarrow> js
                     | Inr cs \<Rightarrow>
                         (case curies_loop cs links of
                            (Some _, links') \<Rightarrow> JObj (AList.update ''_links'' (JObj links') doc)
                          | (None, links') \<Rightarrow>
                              JObj (AList.update ''_links''
                                     (JObj (if del_curies then AList.delete ''curies'' links' else links'))
                                     doc))))
           | _ \<Rightarrow> js)
      | _ \<Rightarrow> js)"

subsection \<open>One step\<close>

definition here :: "crawler \<Rightarrow> position" where
  "here self =
     \<lparr>p_href = current_uri self, p_type = current_uri_type self, p_title = current_uri_title self\<rparr>"

definition go_to :: "position \<Rightarrow> crawler \<Rightarrow> crawler" where
  "go_to p self =
     self\<lparr>current_uri := p_href p, current_uri_type := p_type p, current_uri_title := p_title p\<rparr>"

definition to_entry_point :: "crawler \<Rightarrow> crawler" where
  "to_entry_point self =
     go_to \<lparr>p_href = entry_point self, p_type = ''entry_point'', p_title = JStr ''entry_point''\<rparr> self"

text \<open>\<open>try: prev = self.crawl_history.pop() ... except: ...\<close>, the same text in both places
  where the step goes back.\<close>

definition back_up :: "crawler \<Rightarrow> crawler" where
  "back_up self =
     (case lifo_pop (crawl_history self) of
        Inr (prev, h) \<Rightarrow> go_to prev (self\<lparr>crawl_history := h\<rparr>)
      | Inl _ \<Rightarrow> to_entry_point self)"

text \<open>The href, type and title of a link record as the step reads them when it moves.\<close>

definition link_position :: "json \<Rightarrow> error + position" where
  "link_position link =
     (case get_item link ''href'' of
        Inl e \<Rightarrow> Inl e
      | Inr hv \<Rightarrow>
          (case get_item link ''type'' of
             Inl e \<Rightarrow> Inl e
           | Inr tv \<Rightarrow>
               (case get_item link ''title'' of
                  Inl e \<Rightarrow> Inl e
                | Inr title \<Rightarrow>
                    (case as_str TypeError hv of
                       Inl e \<Rightarrow> Inl e
                     | Inr h \<Rightarrow>
                         (case as_str TypeError tv of
                            Inl e \<Rightarrow> Inl e
                          | Inr ty \<Rightarrow> Inr \<lparr>p_href = h, p_type = ty, p_title = title\<rparr>)))))"

text \<open>Push the current position and move to the link \<open>random.randrange(0, len(links))\<close>
  selects.\<close>

definition follow :: "world \<Rightarrow> nat \<Rightarrow> json list \<Rightarrow> crawler \<Rightarrow> error + crawler" where
  "follow w i links self =
     (case link_position (links ! (random w i mod length links)) of
        Inl e \<Rightarrow> Inl e
      | Inr p \<Rightarrow> Inr (go_to p (self\<lparr>crawl_history := lifo_push (here self) (crawl_history self)\<rparr>)))"

fun uncached :: "json list \<Rightarrow> error + json list" where
  "uncached [] = Inr []"
| "uncached (x # xs) =
     (case get_item x ''in_cache'' of
        Inl e \<Rightarrow> Inl e
      | Inr v \<Rightarrow>
          (case uncached xs of
             Inl e \<Rightarrow> Inl e
           | Inr ys \<Rightarrow> Inr (if \<not> truthy v then x # ys else ys)))"

text \<open>The two log lines that end a step that goes on read the title in upper case.\<close>

definition log_crawling_to :: "crawler \<Rightarrow> error + (bool \<times> crawler)" where
  "log_crawling_to self =
     (case as_str AttributeError (current_uri_title self) of
        Inl e \<Rightarrow> Inl e
      | Inr _ \<Rightarrow> Inr (True, self))"

text \<open>Selection of the next position. In the branch without uncached links the block that
  goes back up the history follows the entry-point block without an \<open>else\<close>.\<close>

definition select_next :: "world \<Rightarrow> nat \<Rightarrow> json list \<Rightarrow> crawler \<Rightarrow> error + (bool \<times> crawler)" where
  "select_next w i crawl_links self =
     (case uncached crawl_links of
        Inl e \<Rightarrow> Inl e
      | Inr uncached_links \<Rightarrow>
          if length uncached_links > 0 then
            (case follow w i uncached_links self of
               Inl e \<Rightarrow> Inl e
             | Inr self' \<Rightarrow> log_crawling_to self')
          else if current_uri_type self = ''entry_point'' then
            (if length crawl_links > 0 then
               (case follow w i crawl_links (self\<lparr>cache := cache_clear (cache self)\<rparr>) of
                  Inl e \<Rightarrow> Inl e
                | Inr self' \<Rightarrow> log_crawling_to (back_up self'))
             else Inr (False, self))
          else log_crawling_to (back_up self))"

text \<open>The first statement of a step: the current URI goes into the cache.\<close>

definition visit :: "world \<Rightarrow> crawler \<Rightarrow> crawler" where
  "visit w self =
     self\<lparr>cache := snd (cache_put_and_collision (fingerprint w) (cache self) (current_uri self))\<rparr>"

text \<open>From the downloaded resource to the candidate links and the URIs that match the
  query.\<close>

definition examine :: "world \<Rightarrow> crawler \<Rightarrow> json \<Rightarrow> error + (json list \<times> string list)" where
  "examine w self resource_json =
     (let resource_json' = apply_hal_curies resource_json True
      in case get_item resource_json' ''_links'' of
           Inl e \<Rightarrow> Inl e
         | Inr req_links \<Rightarrow>
             (case get_external_links w self req_links of
                Inl e \<Rightarrow> Inl e
              | Inr crawl_links \<Rightarrow>
                  (case (case qry_extra self of
                           None \<Rightarrow> query_link_array self crawl_links
                         | Some _ \<Rightarrow> query_current_node self resource_json') of
                     Inl e \<Rightarrow> Inl e
                   | Inr matching_uris \<Rightarrow> Inr (crawl_links, matching_uris))))"

definition crawl_node :: "world \<Rightarrow> nat \<Rightarrow> crawler \<Rightarrow> error + (bool \<times> crawler)" where
  "crawl_node w i self0 =
     (let self = visit w self0
      in case fetch w i (current_uri self) of
           ConnectionError \<Rightarrow>
             if current_uri self = entry_point self then Inr (False, self)
             else Inr (True, back_up self)
         | Failed e \<Rightarrow> Inl e
         | Body resource_json \<Rightarrow>
             (case examine w self resource_json of
                Inl e \<Rightarrow> Inl e
              | Inr (crawl_links, matching_uris) \<Rightarrow>
                  (let (found_one, self') = push_uris_to_queue (clock w i) matching_uris self
                   in if found_one \<and> find_called self' then Inr (False, self')
                      else select_next w i crawl_links self')))"

subsection \<open>The run\<close>

text \<open>The assignments to the query fields at the head of \<open>crawl\<close>.\<close>

definition set_query ::
  "string \<Rightarrow> string option \<Rightarrow> string option \<Rightarrow> string option \<Rightarrow>
   (string \<times> scalar) list option \<Rightarrow> crawler \<Rightarrow> crawler" where
  "set_query namespace resource_type plural_resource_type resource_title resource_extra self =
     (let self1 =
        (case resource_type of
           Some rt \<Rightarrow>
             self\<lparr>qry_resource_type := Some (lower (namespace @ rt)),
                  qry_resource_plural :=
                    map lower
                      (pluralize_resource_name (lower (namespace @ rt)) []
                        @ (case plural_resource_type of
                             Some pl \<Rightarrow> [namespace @ pl]
                           | None \<Rightarrow> []))\<rparr>
         | None \<Rightarrow> self\<lparr>qry_resource_type := None\<rparr>)
      in self1\<lparr>qry_resource_title := map_option lower resource_title,
               qry_extra := resource_extra\<rparr>)"

text \<open>
  \<open>while(self.crawl_node()): ...\<close>. The loop may run forever, so it is given fuel: \<open>None\<close>
  is a run that has not stopped when the fuel is used up. A run that stops returns the
  number of the step that stopped it and the instance, whose \<open>found_resources\<close> is the
  value \<open>crawl\<close> returns.
\<close>

fun crawl_loop :: "world \<Rightarrow> nat \<Rightarrow> nat \<Rightarrow> crawler \<Rightarrow> (error + (nat \<times> crawler)) option" where
  "crawl_loop w 0 loop_count self = None"
| "crawl_loop w (Suc fuel) loop_count self =
     (case crawl_node w loop_count self of
        Inl e \<Rightarrow> Some (Inl e)
      | Inr (True, self') \<Rightarrow> crawl_loop w fuel (Suc loop_count) self'
      | Inr (False, self') \<Rightarrow> Some (Inr (loop_count, self')))"

definition crawl ::
  "world \<Rightarrow> nat \<Rightarrow> string \<Rightarrow> string option \<Rightarrow> string option \<Rightarrow> string option \<Rightarrow>
   (string \<times> scalar) list option \<Rightarrow> crawler \<Rightarrow> (error + (nat \<times> crawler)) option" where
  "crawl w fuel namespace resource_type plural_resource_type resource_title resource_extra self =
     crawl_loop w fuel 0
       (set_query namespace resource_type plural_resource_type resource_title resource_extra self)"

text \<open>\<open>find\<close> reads the clock twice after the run, for \<open>size()\<close> and for \<open>asList()\<close>; the
  result is the returned URI, or \<open>None\<close> for Python's None, with the instance.\<close>

definition find ::
  "world \<Rightarrow> nat \<Rightarrow> string \<Rightarrow> string option \<Rightarrow> string option \<Rightarrow> string option \<Rightarrow>
   (string \<times> scalar) list option \<Rightarrow> crawler \<Rightarrow> (error + (string option \<times> crawler)) option" where
  "find w fuel namespace resource_type plural_resource_type resource_title resource_extra self =
     (case crawl w fuel namespace resource_type plural_resource_type resource_title resource_extra
             (self\<lparr>find_called := True\<rparr>) of
        None \<Rightarrow> None
      | Some (Inl e) \<Rightarrow> Some (Inl e)
      | Some (Inr (n, self')) \<Rightarrow>
          if tds_size (clock w (n + 1)) (found_resources self') \<ge> 1 then
            (case tds_asList (clock w (n + 2)) (found_resources self') of
               [] \<Rightarrow> Some (Inl IndexError)
             | uri # _ \<Rightarrow> Some (Inr (Some uri, self')))
          else Some (Inr (None, self')))"

section \<open>Example data\<close>

definition hal_link :: "string \<Rightarrow> string \<Rightarrow> json" where
  "hal_link h t = JObj [(''href'', JStr h), (''title'', JStr t)]"

text \<open>A stand-in for the hash function, and a web of three resources: A links to B under
  \<open>foo\<close> and to C under \<open>bar\<close>, B links back to A, every other URI does not answer.\<close>

definition toy_hash :: "string \<Rightarrow> 64 word" where
  "toy_hash s = (case s of [] \<Rightarrow> 0 | c # _ \<Rightarrow> of_char c)"

definition small_web :: "string \<Rightarrow> response" where
  "small_web u =
     (if u = ''A'' then
        Body (JObj [(''_links'',
          JObj [(''self'', hal_link ''A'' ''a''), (''foo'', hal_link ''B'' ''b''),
                (''bar'', hal_link ''C'' ''c'')])])
      else if u = ''B'' then
        Body (JObj [(''_links'',
          JObj [(''self'', hal_link ''B'' ''b''), (''up'', hal_link ''A'' ''a'')])])
      else if u = ''C'' then Body (JObj [(''_links'', JObj [(''self'', hal_link ''C'' ''c'')])])
      else ConnectionError)"

definition small_world :: world where
  "small_world =
     \<lparr>fingerprint = toy_hash, fetch = (\<lambda>i. small_web), random = (\<lambda>i. 0), clock = (\<lambda>i. 0)\<rparr>"

definition fresh :: crawler where
  "fresh = init ''A'' 2 5 720 [''previous'', ''next'']"

text \<open>The instance after it has moved from A to B.\<close>

definition at_B :: crawler where
  "at_B =
     fresh\<lparr>current_uri := ''B'', current_uri_type := ''foo'', current_uri_title := JStr ''b'',
           crawl_history :=
             \<lparr>depth = 5,
              entries = [\<lparr>p_href = ''A'', p_type = ''entry_point'',
                          p_title = JStr ''entry_point''\<rparr>]\<rparr>\<rparr>"

text \<open>The instance at the entry point with A, B and C in the cache.\<close>

definition entry_all_cached :: crawler where
  "entry_all_cached =
     fresh\<lparr>cache := \<lparr>mask_bits = 2, table = [None, Some 65, Some 66, Some 67]\<rparr>\<rparr>"

definition is_obj :: "json \<Rightarrow> bool" where
  "is_obj v = (case v of JObj _ \<Rightarrow> True | _ \<Rightarrow> False)"

text \<open>A world in which no URI answers.\<close>

definition dead_world :: world where
  "dead_world =
     \<lparr>fingerprint = toy_hash, fetch = (\<lambda>i u. ConnectionError), random = (\<lambda>i. 0), clock = (\<lambda>i. 0)\<rparr>"

text \<open>
  What the specification says \<open>flatten_filter_link_array\<close> returns, relation by relation:
  the elements of \<open>items\<close> with the type of the current position and the collection flag
  set, one record with the relation name as type for a relation that is kept, nothing for
  a relation whose lower-cased name contains a filter keyword or whose value is null.
\<close>

definition with_type :: "string \<Rightarrow> bool \<Rightarrow> json \<Rightarrow> json" where
  "with_type ty from_list item =
     (case item of
        JObj kvs \<Rightarrow>
          JObj (AList.update ''from_item_list'' (JBool from_list) (AList.update ''type'' (JStr ty) kvs))
      | _ \<Rightarrow> item)"

definition spec_records :: "crawler \<Rightarrow> string \<times> json \<Rightarrow> json list" where
  "spec_records self relation =
     (if fst relation = ''items'' then
        (case snd relation of
           JArr elements \<Rightarrow> map (with_type (current_uri_type self) True) elements
         | _ \<Rightarrow> [])
      else if filtered (filter_keywords self) (fst relation) \<or> snd relation = JNull then []
      else [with_type (fst relation) False (snd relation)])"

text \<open>A relation as a HAL document has it: \<open>items\<close> is an array of link objects, a relation
  that is kept is a link object.\<close>

definition hal_relation :: "crawler \<Rightarrow> string \<times> json \<Rightarrow> bool" where
  "hal_relation self relation =
     (if fst relation = ''items'' then
        (case snd relation of JArr elements \<Rightarrow> list_all is_obj elements | _ \<Rightarrow> False)
      else filtered (filter_keywords self) (fst relation) \<or> snd relation = JNull
           \<or> is_obj (snd relation))"

subsection \<open>Observations on a run\<close>

text \<open>The three places where \<open>crawl_node\<close> returns False, named after the outcomes of the
  specification; \<open>None\<close> for a step after which the run goes on or that raises.\<close>

datatype outcome = Entry_Unreachable | Found_First | Entry_No_Links

definition stop_outcome :: "world \<Rightarrow> nat \<Rightarrow> crawler \<Rightarrow> outcome option" where
  "stop_outcome w i self0 =
     (let self = visit w self0
      in case fetch w i (current_uri self) of
           ConnectionError \<Rightarrow>
             if current_uri self = entry_point self then Some Entry_Unreachable else None
         | Failed e \<Rightarrow> None
         | Body resource_json \<Rightarrow>
             (case examine w self resource_json of
                Inl e \<Rightarrow> None
              | Inr (crawl_links, matching_uris) \<Rightarrow>
                  (let (found_one, self') = push_uris_to_queue (clock w i) matching_uris self
                   in if found_one \<and> find_called self' then Some Found_First
                      else if crawl_links = [] \<and> current_uri_type self' = ''entry_point''
                      then Some Entry_No_Links
                      else None)))"

text \<open>The URIs that step \<open>i\<close> finds matching, and whether it delivers one of them (some
  \<open>add\<close> of the discovery set returns True).\<close>

definition step_matches :: "world \<Rightarrow> nat \<Rightarrow> crawler \<Rightarrow> string list" where
  "step_matches w i self0 =
     (case fetch w i (current_uri self0) of
        Body resource_json \<Rightarrow>
          (case examine w (visit w self0) resource_json of
             Inl e \<Rightarrow> []
           | Inr (crawl_links, matching_uris) \<Rightarrow> matching_uris)
      | _ \<Rightarrow> [])"

definition delivers :: "world \<Rightarrow> nat \<Rightarrow> crawler \<Rightarrow> bool" where
  "delivers w i self0 =
     fst (push_uris_to_queue (clock w i) (step_matches w i self0) (visit w self0))"

text \<open>The instance at the head of step \<open>k + m\<close> of a run that starts step \<open>k\<close> in \<open>self\<close>, when
  the \<open>m\<close> steps before it all returned True.\<close>

fun state_after :: "world \<Rightarrow> nat \<Rightarrow> nat \<Rightarrow> crawler \<Rightarrow> crawler option" where
  "state_after w k 0 self = Some self"
| "state_after w k (Suc m) self =
     (case crawl_node w k self of
        Inr (True, self') \<Rightarrow> state_after w (Suc k) m self'
      | _ \<Rightarrow> None)"


text \<open>The instance after \<open>find\<close> has been called for \<open>foo\<close> on a new instance in the small web:
  it is at A, \<open>find_called\<close> is set and the discovery set holds B.\<close>

definition after_find :: crawler where
  "after_find =
     (case find small_world 5 [] (Some ''foo'') None None None fresh of
        Some (Inr (r, self')) \<Rightarrow> self'
      | _ \<Rightarrow> fresh)"





text \<open>A resource whose link section declares the curie \<open>ch\<close> and holds both the shorthand
  relation \<open>ch:a\<close> and the relation it stands for.\<close>

definition site_curie :: "(string \<times> json) list" where
  "site_curie = [(''name'', JStr ''ch''), (''href'', JStr ''http://x/rels/{rel}'')]"

definition clash_doc :: json where
  "clash_doc =
     JObj [(''_links'',
            JObj [(''curies'', JArr [JObj site_curie]),
                  (''ch:a'', hal_link ''B'' ''b''),
                  (''http://x/rels/a'', hal_link ''A'' ''a'')])]"

section \<open>Properties\<close>

subsection \<open>Link extraction\<close>

lemma set_item_obj: "set_item d k v = Inr r \<Longrightarrow> is_obj r"
  by (cases d) (auto simp: set_item_def is_obj_def)

lemma items_record_obj: "items_record ty it = Inr r \<Longrightarrow> is_obj r"
  unfolding items_record_def
  by (simp split: sum.splits) (erule set_item_obj)+

lemma link_record_obj: "link_record key item = Inr r \<Longrightarrow> is_obj r"
  unfolding link_record_def
  by (simp split: sum.splits) (erule set_item_obj)

lemma flatten_items_objs:
  "flatten_items ty its acc = Inr ls \<Longrightarrow> list_all is_obj acc \<Longrightarrow> list_all is_obj ls"
proof (induction its arbitrary: acc)
  case Nil
  then show ?case by simp
next
  case (Cons it its)
  from Cons.prems(1) obtain r where r: "items_record ty it = Inr r"
    and rest: "flatten_items ty its (acc @ [r]) = Inr ls"
    by (simp split: sum.splits)
  from r have "is_obj r" by (rule items_record_obj)
  with Cons.prems(2) have "list_all is_obj (acc @ [r])" by simp
  with rest show ?case by (rule Cons.IH)
qed

lemma flatten_loop_objs:
  "flatten_loop self kvs acc = Inr ls \<Longrightarrow> list_all is_obj acc \<Longrightarrow> list_all is_obj ls"
proof (induction self kvs acc rule: flatten_loop.induct)
  case (1 self crawl_links)
  then show ?case by simp
next
  case (2 self key item rest crawl_links)
  show ?case
  proof (cases "key = ''items''")
    case True
    with "2.prems"(1) obtain its acc' where its: "py_iter item = Inr its"
      and acc': "flatten_items (current_uri_type self) its crawl_links = Inr acc'"
      and rest: "flatten_loop self rest acc' = Inr ls"
      by (simp split: sum.splits)
    from acc' "2.prems"(2) have "list_all is_obj acc'" by (rule flatten_items_objs)
    with "2.IH"(1) [OF True its acc' rest] show ?thesis .
  next
    case False
    show ?thesis
    proof (cases "\<not> filtered (filter_keywords self) key \<and> item \<noteq> JNull")
      case True
      with False "2.prems"(1) obtain r where r: "link_record key item = Inr r"
        and rest: "flatten_loop self rest (crawl_links @ [r]) = Inr ls"
        by (simp split: sum.splits)
      from r have "is_obj r" by (rule link_record_obj)
      with "2.prems"(2) have "list_all is_obj (crawl_links @ [r])" by simp
      with "2.IH"(2) [OF False _ _ r rest] True show ?thesis by simp
    next
      case skip: False
      with False "2.prems"(1) have "flatten_loop self rest crawl_links = Inr ls"
        by (auto split: if_splits)
      with "2.IH"(3,4) False skip "2.prems"(2) show ?thesis by auto
    qed
  qed
qed

text \<open>No record is a string, so the comparison with the hrefs of the history removes
  nothing.\<close>

lemma history_filter_keeps_all:
  assumes "flatten_filter_link_array self req_links = Inr crawl_links"
  shows "filter (\<lambda>x. x \<notin> set (map (\<lambda>y. JStr (p_href y)) (lifo_asList (crawl_history self))))
           crawl_links = crawl_links"
proof -
  have "list_all is_obj crawl_links"
    using assms flatten_loop_objs [of self _ "[]" crawl_links]
    by (cases req_links) (simp_all add: flatten_filter_link_array_def)
  then have "\<forall>x \<in> set crawl_links. \<forall>s. x \<noteq> JStr s"
    by (auto simp: list_all_iff is_obj_def)
  then show ?thesis
    by (auto simp: filter_id_conv)
qed

lemma flatten_ignores_history:
  "flatten_filter_link_array (self\<lparr>crawl_history := h\<rparr>) req_links
     = flatten_filter_link_array self req_links"
proof -
  have "flatten_loop (self\<lparr>crawl_history := h\<rparr>) kvs acc = flatten_loop self kvs acc" for kvs acc
    by (induction self kvs acc rule: flatten_loop.induct) (simp_all split: sum.splits)
  then show ?thesis by (cases req_links) (simp_all add: flatten_filter_link_array_def)
qed

lemma get_external_links_ignores_history:
  "get_external_links w (self\<lparr>crawl_history := h\<rparr>) req_links = get_external_links w self req_links"
proof (cases "flatten_filter_link_array self req_links")
  case (Inl e)
  then show ?thesis by (simp add: get_external_links_def flatten_ignores_history)
next
  case (Inr crawl_links)
  with history_filter_keeps_all [of self req_links crawl_links]
    history_filter_keeps_all [of "self\<lparr>crawl_history := h\<rparr>" req_links crawl_links]
  show ?thesis by (simp add: get_external_links_def flatten_ignores_history)
qed

text \<open>
  C3. The claim: \<open>get_external_links\<close> removes the records whose href is among the hrefs on
  the history, so that none of them is a candidate. The code compares each record itself,
  not its href, with those hrefs, and a record never equals a string: the candidates do
  not depend on the history (\<open>get_external_links_ignores_history\<close>). At B, reached from A,
  with A on the history, the link of B back to A is returned as a candidate.
\<close>

theorem get_external_links_keeps_visited:
  "get_external_links small_world at_B
     (JObj [(''self'', hal_link ''B'' ''b''), (''up'', hal_link ''A'' ''a'')])
   = Inr [JObj [(''href'', JStr ''A''), (''title'', JStr ''a''), (''type'', JStr ''up''),
                (''from_item_list'', JBool False), (''in_cache'', JBool False)]]"
  by code_simp

subsection \<open>Query matching\<close>

text \<open>
  C4. The claim: a record satisfies the type criterion exactly when its type is the
  singular, or is one of the plural forms and the record comes from a collection. The
  code tests whether the type occurs inside a plural form: a query for \<open>sensor_data\<close> has
  the plural \<open>sensor_datas\<close>, and a record of type \<open>sensor\<close> from a collection, which is
  neither the singular nor a plural of the query, is reported as a match.
\<close>

theorem query_link_array_substring_match:
  "query_link_array (set_query [] (Some ''sensor_data'') None None None fresh)
     [JObj [(''href'', JStr ''X''), (''title'', JStr ''x''), (''type'', JStr ''sensor''),
            (''from_item_list'', JBool True), (''in_cache'', JBool False)]]
   = Inr [''X'']"
  by code_simp

subsection \<open>The step\<close>

text \<open>
  C1. The claim: at the entry point, with candidates that are all in the cache, the step
  clears the cache, pushes the entry position, moves to a candidate and ends there. The
  code does the first three and then runs on into the block that goes back up the
  history, which pops the position just pushed: in the three-resource web, with A, B and
  C cached, the step from A ends at A, with an empty history and an empty cache.
\<close>

theorem crawl_node_fresh_start_returns_to_entry:
  "map_sum id (\<lambda>(go_on, s). (go_on, here s, entries (crawl_history s), table (cache s)))
     (crawl_node small_world 0 entry_all_cached)
   = Inr (True, \<lparr>p_href = ''A'', p_type = ''entry_point'', p_title = JStr ''entry_point''\<rparr>, [],
          [None, None, None, None])"
  by code_simp

lemma back_up_cases:
  "(case entries (crawl_history self) of
      [] \<Rightarrow> here (back_up self) = \<lparr>p_href = entry_point self, p_type = ''entry_point'', p_title = JStr ''entry_point''\<rparr>
             \<and> entries (crawl_history (back_up self)) = []
    | prev # older \<Rightarrow> here (back_up self) = prev \<and> entries (crawl_history (back_up self)) = older)"
  by (cases "entries (crawl_history self)")
     (simp_all add: back_up_def lifo_pop_def here_def go_to_def to_entry_point_def)

lemma back_up_cache: "cache (back_up self) = cache self"
  by (cases "entries (crawl_history self)")
     (simp_all add: back_up_def lifo_pop_def go_to_def to_entry_point_def)

text \<open>
  C5. When the download of the current resource fails away from the entry point, the
  step goes on (it returns True): with a non-empty history the position becomes the
  popped entry, with an empty history it becomes the entry point. The handling of the
  failure does not touch the cache: after the step the cache is what the write of the
  current URI at the head of the step made of it, nothing is cleared.
\<close>

theorem fetch_failure_backtracks:
  assumes "fetch w i (current_uri self) = ConnectionError"
      and "current_uri self \<noteq> entry_point self"
  shows "\<exists>self'. crawl_node w i self = Inr (True, self')
           \<and> cache self' = snd (cache_put_and_collision (fingerprint w) (cache self) (current_uri self))
           \<and> (case entries (crawl_history self) of
                 [] \<Rightarrow> here self' = \<lparr>p_href = entry_point self, p_type = ''entry_point'',
                                      p_title = JStr ''entry_point''\<rparr>
                        \<and> entries (crawl_history self') = []
               | prev # older \<Rightarrow> here self' = prev \<and> entries (crawl_history self') = older)"
proof -
  have "crawl_node w i self = Inr (True, back_up (visit w self))"
    using assms by (simp add: crawl_node_def Let_def visit_def)
  moreover have "cache (back_up (visit w self))
      = snd (cache_put_and_collision (fingerprint w) (cache self) (current_uri self))"
    by (simp add: back_up_cache visit_def)
  moreover have "crawl_history (visit w self) = crawl_history self"
    and "entry_point (visit w self) = entry_point self"
    by (simp_all add: visit_def)
  ultimately show ?thesis
    using back_up_cases [of "visit w self"] by (auto split: list.splits)
qed

theorem fetch_failure_backtracks_witness:
  "fetch dead_world 0 (current_uri at_B) = ConnectionError
   \<and> current_uri at_B \<noteq> entry_point at_B
   \<and> entries (crawl_history at_B)
       = [\<lparr>p_href = ''A'', p_type = ''entry_point'', p_title = JStr ''entry_point''\<rparr>]
   \<and> (\<exists>self'. crawl_node dead_world 0 at_B = Inr (True, self')
         \<and> table (cache self') = [None, None, Some 66, None]
         \<and> here self' = \<lparr>p_href = ''A'', p_type = ''entry_point'', p_title = JStr ''entry_point''\<rparr>
         \<and> entries (crawl_history self') = [])"
proof -
  have f: "fetch dead_world 0 (current_uri at_B) = ConnectionError"
    by (simp add: dead_world_def)
  have n: "current_uri at_B \<noteq> entry_point at_B"
    by (simp add: at_B_def fresh_def init_def)
  have h: "entries (crawl_history at_B)
       = [\<lparr>p_href = ''A'', p_type = ''entry_point'', p_title = JStr ''entry_point''\<rparr>]"
    by (simp add: at_B_def)
  have c: "table (snd (cache_put_and_collision (fingerprint dead_world) (cache at_B) (current_uri at_B)))
      = [None, None, Some 66, None]"
    by code_simp
  from fetch_failure_backtracks [OF f n] f n h c show ?thesis
    by auto
qed


subsection \<open>Case of letters\<close>

lemma lower_idem: "lower (lower s) = lower s"
proof -
  have "lower_char (lower_char c) = lower_char c" for c
    by (simp add: lower_char_def split: option.splits if_splits)
  then show ?thesis by (simp add: lower_def)
qed

lemma lower_append: "lower (a @ b) = lower a @ lower b"
  by (simp add: lower_def)

lemma get_item_update:
  "get_item (JObj (AList.update k v kvs)) k' = (if k' = k then Inr v else get_item (JObj kvs) k')"
  by (simp add: get_item_def update_conv')

text \<open>
  C8. The claim: every string comparison of the matcher ignores case, the one of the
  extra attributes included. The code lower-cases both sides of the type and of the title
  comparison and compares an extra attribute with \<open>==\<close>: a resource whose \<open>sensor_type\<close> is
  \<open>AlphaSense\<close> does not match the expected value \<open>alphasense\<close>, the same resource with
  the value in lower case does.
\<close>

theorem extra_comparison_case_sensitive:
  "query_current_node (set_query [] None None None (Some [(''sensor_type'', SStr ''alphasense'')]) fresh)
     (JObj [(''sensor_type'', JStr ''AlphaSense''), (''_links'', JObj [])]) = Inr []
   \<and> query_current_node (set_query [] None None None (Some [(''sensor_type'', SStr ''alphasense'')]) fresh)
     (JObj [(''sensor_type'', JStr ''alphasense''), (''_links'', JObj [])]) = Inr [''A'']"
  by code_simp

text \<open>
  C8, as amended: the type and the title comparison ignore case, on the side of the link
  or of the current position and on the side of the query (namespace, type, plural and
  title given to \<open>crawl\<close>); an extra attribute that is a string matches exactly when it is
  equal to the expected string, letter case included.
\<close>

theorem matching_case_insensitive_for_type_and_title:
  assumes "lower ty = lower ty'" and "lower ti = lower ti'"
      and "lower ns = lower ns'" and "lower rt = lower rt'" and "lower pl = lower pl'"
  shows "query_link_array self
           [JObj (AList.update ''title'' (JStr ti) (AList.update ''type'' (JStr ty) kvs))]
         = query_link_array self
           [JObj (AList.update ''title'' (JStr ti') (AList.update ''type'' (JStr ty') kvs))]
       \<and> query_current_node (self\<lparr>current_uri_type := ty, current_uri_title := JStr ti\<rparr>) js
         = query_current_node (self\<lparr>current_uri_type := ty', current_uri_title := JStr ti'\<rparr>) js
       \<and> set_query ns (Some rt) (Some pl) (Some ti) ex self
         = set_query ns' (Some rt') (Some pl') (Some ti') ex self
       \<and> extra_matches (JObj [(k, JStr a)]) (k, SStr b) = (a = b)"
proof -
  have 1: "link_type_matches self (JObj (AList.update ''title'' (JStr ti) (AList.update ''type'' (JStr ty) kvs)))
      = link_type_matches self (JObj (AList.update ''title'' (JStr ti') (AList.update ''type'' (JStr ty') kvs)))"
    by (simp add: link_type_matches_def get_item_update as_str_def assms(1) split: option.splits sum.splits)
  have 2: "link_title_matches self (JObj (AList.update ''title'' (JStr ti) (AList.update ''type'' (JStr ty) kvs)))
      = link_title_matches self (JObj (AList.update ''title'' (JStr ti') (AList.update ''type'' (JStr ty') kvs)))"
    by (simp add: link_title_matches_def get_item_update as_str_def assms(2) split: option.splits sum.splits)
  have 3: "get_item (JObj (AList.update ''title'' (JStr ti) (AList.update ''type'' (JStr ty) kvs))) ''href''
      = get_item (JObj (AList.update ''title'' (JStr ti') (AList.update ''type'' (JStr ty') kvs))) ''href''"
    by (simp add: get_item_update)
  have a: "link_match self (JObj (AList.update ''title'' (JStr ti) (AList.update ''type'' (JStr ty) kvs)))
      = link_match self (JObj (AList.update ''title'' (JStr ti') (AList.update ''type'' (JStr ty') kvs)))"
    unfolding link_match_def 1 2 3 ..
  have b: "query_current_node (self\<lparr>current_uri_type := ty, current_uri_title := JStr ti\<rparr>) js
         = query_current_node (self\<lparr>current_uri_type := ty', current_uri_title := JStr ti'\<rparr>) js"
    by (simp add: query_current_node_def as_str_def assms(1,2) Let_def split: option.splits)
  have c: "set_query ns (Some rt) (Some pl) (Some ti) ex self
         = set_query ns' (Some rt') (Some pl') (Some ti') ex self"
    by (simp add: set_query_def pluralize_resource_name_def lower_append assms(2-5))
  have d: "extra_matches (JObj [(k, JStr a)]) (k, SStr b) = (a = b)"
    by (simp add: extra_matches_def get_item_def)
  from a b c d show ?thesis by (simp add: query_link_array_def)
qed

theorem matching_case_insensitive_witness:
  "lower ''Sensor'' = lower ''SENSOR'' \<and> lower ''Lab'' = lower ''lab''
   \<and> query_link_array (set_query [] (Some ''sensor'') None (Some ''LAB'') None fresh)
       [JObj [(''href'', JStr ''X''), (''from_item_list'', JBool False),
              (''type'', JStr ''Sensor''), (''title'', JStr ''Lab'')]]
     = query_link_array (set_query [] (Some ''sensor'') None (Some ''LAB'') None fresh)
       [JObj [(''href'', JStr ''X''), (''from_item_list'', JBool False),
              (''type'', JStr ''SENSOR''), (''title'', JStr ''lab'')]]
   \<and> query_link_array (set_query [] (Some ''sensor'') None (Some ''LAB'') None fresh)
       [JObj [(''href'', JStr ''X''), (''from_item_list'', JBool False),
              (''type'', JStr ''SENSOR''), (''title'', JStr ''lab'')]] = Inr [''X'']"
proof -
  have 1: "lower ''Sensor'' = lower ''SENSOR''" and 2: "lower ''Lab'' = lower ''lab''"
    by code_simp+
  have 3: "query_link_array (set_query [] (Some ''sensor'') None (Some ''LAB'') None fresh)
       [JObj [(''href'', JStr ''X''), (''from_item_list'', JBool False),
              (''type'', JStr ''SENSOR''), (''title'', JStr ''lab'')]] = Inr [''X'']"
    by code_simp
  from matching_case_insensitive_for_type_and_title
         [OF 1 2 refl refl refl, of "set_query [] (Some ''sensor'') None (Some ''LAB'') None fresh"
            "[(''href'', JStr ''X''), (''from_item_list'', JBool False)]"]
  show ?thesis using 1 2 3 by simp
qed

subsection \<open>Flattening\<close>

lemma items_record_obj_eq: "is_obj it \<Longrightarrow> items_record ty it = Inr (with_type ty True it)"
  by (cases it) (simp_all add: is_obj_def items_record_def set_item_def with_type_def)

lemma link_record_obj_eq: "is_obj item \<Longrightarrow> link_record key item = Inr (with_type key False item)"
  by (cases item) (simp_all add: is_obj_def link_record_def set_item_def with_type_def)

lemma flatten_items_eq:
  "list_all is_obj its \<Longrightarrow> flatten_items ty its acc = Inr (acc @ map (with_type ty True) its)"
  by (induction its arbitrary: acc) (simp_all add: items_record_obj_eq)

lemma flatten_loop_eq:
  "list_all (hal_relation self) kvs \<Longrightarrow>
   flatten_loop self kvs acc = Inr (acc @ concat (map (spec_records self) kvs))"
proof (induction kvs arbitrary: acc)
  case Nil
  then show ?case by simp
next
  case (Cons kv kvs)
  obtain key item where kv: "kv = (key, item)" by (cases kv)
  from Cons.prems have wf: "hal_relation self (key, item)" and rest: "list_all (hal_relation self) kvs"
    by (simp_all add: kv)
  note IH = Cons.IH [OF rest]
  show ?case
  proof (cases "key = ''items''")
    case True
    with wf obtain elements where item: "item = JArr elements" and objs: "list_all is_obj elements"
      by (cases item) (simp_all add: hal_relation_def)
    show ?thesis
      by (simp add: kv True item py_iter_def flatten_items_eq [OF objs] IH spec_records_def)
  next
    case False
    show ?thesis
    proof (cases "filtered (filter_keywords self) key \<or> item = JNull")
      case True
      with False show ?thesis
        by (auto simp: kv IH spec_records_def)
    next
      case keep: False
      with wf False have "is_obj item" by (simp add: hal_relation_def)
      with False keep show ?thesis
        by (simp add: kv IH spec_records_def link_record_obj_eq)
    qed
  qed
qed

text \<open>
  C6, as amended. On a link section whose \<open>items\<close> relation is an array of link objects and
  whose other relations are link objects or null, \<open>flatten_filter_link_array\<close> returns, in
  the order of the section: for \<open>items\<close> one record per element, with the type of the
  current position and \<open>from_item_list\<close> true; for every other relation whose lower-cased
  name contains no filter keyword and whose value is not null one record, with the
  relation name as type and \<open>from_item_list\<close> false; nothing, and no error, for a relation
  whose lower-cased name contains a filter keyword and for a null relation.
\<close>

theorem flatten_filter_link_array_records:
  assumes "list_all (hal_relation self) relations"
  shows "flatten_filter_link_array self (JObj relations)
         = Inr (concat (map (spec_records self) relations))"
  using flatten_loop_eq [OF assms, of "[]"] by (simp add: flatten_filter_link_array_def)

text \<open>
  C6. The claim as stated fails at two places. The keywords are looked for in the
  lower-cased name, so the relation \<open>Edit-form\<close>, whose name does not contain \<open>edit\<close> as
  written, is dropped. The null test stands only in the branch of the other relations: a
  null \<open>items\<close> relation is iterated over and raises.
\<close>

theorem flatten_filter_link_array_counterexample:
  "flatten_filter_link_array fresh (JObj [(''Edit-form'', hal_link ''X'' ''x'')]) = Inr []
   \<and> flatten_filter_link_array fresh (JObj [(''items'', JNull)]) = Inl TypeError"
  by code_simp

theorem flatten_filter_link_array_records_witness:
  "list_all (hal_relation at_B)
     [(''items'', JArr [hal_link ''S1'' ''one'', hal_link ''S2'' ''two'']),
      (''ch:site'', hal_link ''P'' ''site''), (''editForm'', hal_link ''E'' ''edit''),
      (''ch:owner'', JNull)]
   \<and> flatten_filter_link_array at_B
       (JObj [(''items'', JArr [hal_link ''S1'' ''one'', hal_link ''S2'' ''two'']),
              (''ch:site'', hal_link ''P'' ''site''), (''editForm'', hal_link ''E'' ''edit''),
              (''ch:owner'', JNull)])
     = Inr [JObj [(''href'', JStr ''S1''), (''title'', JStr ''one''), (''type'', JStr ''foo''),
                  (''from_item_list'', JBool True)],
            JObj [(''href'', JStr ''S2''), (''title'', JStr ''two''), (''type'', JStr ''foo''),
                  (''from_item_list'', JBool True)],
            JObj [(''href'', JStr ''P''), (''title'', JStr ''site''), (''type'', JStr ''ch:site''),
                  (''from_item_list'', JBool False)]]"
proof -
  have wf: "list_all (hal_relation at_B)
     [(''items'', JArr [hal_link ''S1'' ''one'', hal_link ''S2'' ''two'']),
      (''ch:site'', hal_link ''P'' ''site''), (''editForm'', hal_link ''E'' ''edit''),
      (''ch:owner'', JNull)]"
    by code_simp
  have r: "concat (map (spec_records at_B)
     [(''items'', JArr [hal_link ''S1'' ''one'', hal_link ''S2'' ''two'']),
      (''ch:site'', hal_link ''P'' ''site''), (''editForm'', hal_link ''E'' ''edit''),
      (''ch:owner'', JNull)])
     = [JObj [(''href'', JStr ''S1''), (''title'', JStr ''one''), (''type'', JStr ''foo''),
                  (''from_item_list'', JBool True)],
            JObj [(''href'', JStr ''S2''), (''title'', JStr ''two''), (''type'', JStr ''foo''),
                  (''from_item_list'', JBool True)],
            JObj [(''href'', JStr ''P''), (''title'', JStr ''site''), (''type'', JStr ''ch:site''),
                  (''from_item_list'', JBool False)]]"
    by code_simp
  from flatten_filter_link_array_records [OF wf] wf r show ?thesis by simp
qed

subsection \<open>Frames\<close>

lemma visit_fields [simp]:
  "current_uri (visit w s) = current_uri s"
  "current_uri_type (visit w s) = current_uri_type s"
  "current_uri_title (visit w s) = current_uri_title s"
  "entry_point (visit w s) = entry_point s"
  "crawl_history (visit w s) = crawl_history s"
  "found_resources (visit w s) = found_resources s"
  "find_called (visit w s) = find_called s"
  "sink (visit w s) = sink s"
  by (simp_all add: visit_def)

lemma back_up_fields [simp]:
  "found_resources (back_up s) = found_resources s"
  "find_called (back_up s) = find_called s"
  "entry_point (back_up s) = entry_point s"
  "sink (back_up s) = sink s"
  by (cases "entries (crawl_history s)";
      simp add: back_up_def lifo_pop_def go_to_def to_entry_point_def)+

lemma follow_fields:
  assumes "follow w i links s = Inr s'"
  shows "found_resources s' = found_resources s" and "find_called s' = find_called s"
    and "entry_point s' = entry_point s" and "sink s' = sink s"
  using assms by (auto simp: follow_def go_to_def split: sum.splits)

lemma log_crawling_to_result: "log_crawling_to s = Inr (b, s') \<Longrightarrow> b \<and> s' = s"
  by (simp add: log_crawling_to_def split: sum.splits)

lemma push_frame:
  "snd (push_uris_to_queue now uris s)
   = s\<lparr>found_resources := found_resources (snd (push_uris_to_queue now uris s)),
       sink := sink (snd (push_uris_to_queue now uris s))\<rparr>"
proof (induction uris arbitrary: s)
  case Nil
  then show ?case by simp
next
  case (Cons u us)
  let ?s1 = "s\<lparr>found_resources := snd (tds_add now u (found_resources s)),
               sink := (if fst (tds_add now u (found_resources s))
                        then map_option (\<lambda>q. q @ [u]) (sink s) else sink s)\<rparr>"
  have step: "snd (push_uris_to_queue now (u # us) s) = snd (push_uris_to_queue now us ?s1)"
    by (simp add: Let_def split_beta)
  show ?case
    unfolding step by (subst Cons.IH) simp
qed

lemma push_fields [simp]:
  "find_called (snd (push_uris_to_queue now uris s)) = find_called s"
  "entry_point (snd (push_uris_to_queue now uris s)) = entry_point s"
  "current_uri_type (snd (push_uris_to_queue now uris s)) = current_uri_type s"
  "current_uri (snd (push_uris_to_queue now uris s)) = current_uri s"
  by (subst push_frame, simp)+



lemma select_next_fields:
  assumes "select_next w i links s = Inr (b, s')"
  shows "found_resources s' = found_resources s" and "find_called s' = find_called s"
    and "entry_point s' = entry_point s" and "sink s' = sink s"
proof -
  obtain ul where ul: "uncached links = Inr ul"
    using assms by (cases "uncached links") (simp_all add: select_next_def)
  have "found_resources s' = found_resources s \<and> find_called s' = find_called s
      \<and> entry_point s' = entry_point s \<and> sink s' = sink s"
  proof (cases "length ul > 0")
    case True
    with assms ul obtain s1 where "follow w i ul s = Inr s1" and "log_crawling_to s1 = Inr (b, s')"
      by (auto simp: select_next_def split: sum.splits)
    then show ?thesis
      using follow_fields [of w i ul s s1] by (auto dest: log_crawling_to_result)
  next
    case False
    show ?thesis
    proof (cases "current_uri_type s = ''entry_point''")
      case ep: True
      show ?thesis
      proof (cases "length links > 0")
        case True
        with assms ul False ep obtain s1
          where f: "follow w i links (s\<lparr>cache := cache_clear (cache s)\<rparr>) = Inr s1"
            and l: "log_crawling_to (back_up s1) = Inr (b, s')"
          by (auto simp: select_next_def split: sum.splits)
        from follow_fields [OF f] l show ?thesis
          by (auto dest: log_crawling_to_result)
      next
        case nolinks: False
        with assms ul False ep show ?thesis
          by (simp add: select_next_def)
      qed
    next
      case nep: False
      with assms ul False have "log_crawling_to (back_up s) = Inr (b, s')"
        by (simp add: select_next_def)
      then show ?thesis by (auto dest: log_crawling_to_result)
    qed
  qed
  then show "found_resources s' = found_resources s" and "find_called s' = find_called s"
    and "entry_point s' = entry_point s" and "sink s' = sink s"
    by simp_all
qed


subsection \<open>The step, case by case\<close>

lemma crawl_node_unreachable:
  "fetch w i (current_uri s) = ConnectionError \<Longrightarrow>
   crawl_node w i s = (if current_uri s = entry_point s then Inr (False, visit w s)
                       else Inr (True, back_up (visit w s)))"
  by (simp add: crawl_node_def Let_def)

lemma crawl_node_failed:
  "fetch w i (current_uri s) = Failed e \<Longrightarrow> crawl_node w i s = Inl e"
  by (simp add: crawl_node_def Let_def)

lemma crawl_node_raises:
  "fetch w i (current_uri s) = Body r \<Longrightarrow> examine w (visit w s) r = Inl e \<Longrightarrow>
   crawl_node w i s = Inl e"
  by (simp add: crawl_node_def Let_def)

lemma crawl_node_body:
  "fetch w i (current_uri s) = Body r \<Longrightarrow> examine w (visit w s) r = Inr (links, m) \<Longrightarrow>
   crawl_node w i s =
     (if fst (push_uris_to_queue (clock w i) m (visit w s)) \<and> find_called s
      then Inr (False, snd (push_uris_to_queue (clock w i) m (visit w s)))
      else select_next w i links (snd (push_uris_to_queue (clock w i) m (visit w s))))"
  by (simp add: crawl_node_def Let_def split_beta)




lemma stop_outcome_body:
  "fetch w i (current_uri s) = Body r \<Longrightarrow> examine w (visit w s) r = Inr (links, m) \<Longrightarrow>
   stop_outcome w i s =
     (if fst (push_uris_to_queue (clock w i) m (visit w s)) \<and> find_called s
      then Some Found_First
      else if links = [] \<and> current_uri_type s = ''entry_point'' then Some Entry_No_Links
      else None)"
  by (simp add: stop_outcome_def Let_def split_beta)

lemma step_matches_body:
  "fetch w i (current_uri s) = Body r \<Longrightarrow> examine w (visit w s) r = Inr (links, m) \<Longrightarrow>
   step_matches w i s = m"
  by (simp add: step_matches_def)


lemma delivering_step_stops:
  assumes "delivers w i s" and "find_called s"
  shows "crawl_node w i s = Inr (False, snd (push_uris_to_queue (clock w i) (step_matches w i s) (visit w s)))"
    and "stop_outcome w i s = Some Found_First"
proof -
  from assms(1) obtain r where r: "fetch w i (current_uri s) = Body r"
    by (cases "fetch w i (current_uri s)") (simp_all add: delivers_def step_matches_def)
  from assms(1) r obtain links m where e: "examine w (visit w s) r = Inr (links, m)"
    by (cases "examine w (visit w s) r") (auto simp: delivers_def step_matches_def)
  from assms(1) have d: "fst (push_uris_to_queue (clock w i) m (visit w s))"
    by (simp add: delivers_def step_matches_body [OF r e])
  from d assms(2) show "crawl_node w i s = Inr (False, snd (push_uris_to_queue (clock w i) (step_matches w i s) (visit w s)))"
    by (simp add: crawl_node_body [OF r e] step_matches_body [OF r e])
  from d assms(2) show "stop_outcome w i s = Some Found_First"
    by (simp add: stop_outcome_body [OF r e])
qed

lemma tds_add_persistence [simp]: "persistence (snd (tds_add now u d)) = persistence d"
  by (simp add: tds_add_def)

lemma push_persistence [simp]:
  "persistence (found_resources (snd (push_uris_to_queue now uris s))) = persistence (found_resources s)"
  by (induction uris arbitrary: s) (simp_all add: Let_def split_beta)

lemma crawl_node_fields:
  assumes "crawl_node w i s = Inr (b, s')"
  shows "find_called s' = find_called s" and "entry_point s' = entry_point s"
    and "persistence (found_resources s') = persistence (found_resources s)"
proof -
  have "find_called s' = find_called s \<and> entry_point s' = entry_point s
      \<and> persistence (found_resources s') = persistence (found_resources s)"
  proof (cases "fetch w i (current_uri s)")
    case ConnectionError
    with assms show ?thesis
      by (auto simp: crawl_node_unreachable split: if_splits)
  next
    case (Failed e)
    with assms show ?thesis by (simp add: crawl_node_failed)
  next
    case (Body r)
    show ?thesis
    proof (cases "examine w (visit w s) r")
      case (Inl e)
      with Body assms show ?thesis by (simp add: crawl_node_raises)
    next
      case (Inr lm)
      obtain links m where lm: "lm = (links, m)" by (cases lm)
      let ?s1 = "snd (push_uris_to_queue (clock w i) m (visit w s))"
      note cn = crawl_node_body [OF Body Inr [unfolded lm]]
      show ?thesis
      proof (cases "fst (push_uris_to_queue (clock w i) m (visit w s)) \<and> find_called s")
        case True
        with assms cn show ?thesis by auto
      next
        case False
        with assms cn have "select_next w i links ?s1 = Inr (b, s')" by simp
        from select_next_fields [OF this] show ?thesis by simp
      qed
    qed
  qed
  then show "find_called s' = find_called s" and "entry_point s' = entry_point s"
    and "persistence (found_resources s') = persistence (found_resources s)"
    by simp_all
qed


subsection \<open>The loop\<close>

lemma crawl_loop_stops_at:
  "crawl_loop w fuel k s = Some (Inr (n, s')) \<Longrightarrow>
   \<exists>m s_n. n = k + m \<and> m < fuel \<and> state_after w k m s = Some s_n
          \<and> crawl_node w n s_n = Inr (False, s')"
proof (induction fuel arbitrary: k s)
  case 0
  then show ?case by simp
next
  case (Suc fuel)
  show ?case
  proof (cases "crawl_node w k s")
    case (Inl e)
    with Suc.prems show ?thesis by simp
  next
    case (Inr bs)
    obtain b s1 where bs: "bs = (b, s1)" by (cases bs)
    show ?thesis
    proof (cases b)
      case True
      with Suc.prems Inr bs have "crawl_loop w fuel (Suc k) s1 = Some (Inr (n, s'))" by simp
      from Suc.IH [OF this] obtain m s_n where "n = Suc k + m" "m < fuel"
        "state_after w (Suc k) m s1 = Some s_n" "crawl_node w n s_n = Inr (False, s')"
        by blast
      with Inr bs True have "n = k + Suc m \<and> Suc m < Suc fuel
          \<and> state_after w k (Suc m) s = Some s_n \<and> crawl_node w n s_n = Inr (False, s')"
        by simp
      then show ?thesis by blast
    next
      case False
      with Suc.prems Inr bs have "n = k + 0 \<and> 0 < Suc fuel \<and> state_after w k 0 s = Some s
          \<and> crawl_node w n s = Inr (False, s')"
        by simp
      then show ?thesis by blast
    qed
  qed
qed

lemma crawl_loop_reaches:
  "state_after w k m s = Some s_n \<Longrightarrow> crawl_node w (k + m) s_n = Inr (False, s') \<Longrightarrow> m < fuel \<Longrightarrow>
   crawl_loop w fuel k s = Some (Inr (k + m, s'))"
proof (induction m arbitrary: k s fuel)
  case 0
  then obtain f where "fuel = Suc f" by (cases fuel) simp_all
  with 0 show ?case by simp
next
  case (Suc m)
  from Suc.prems(3) obtain f where f: "fuel = Suc f" and mf: "m < f" by (cases fuel) simp_all
  from Suc.prems(1) obtain s1 where s1: "crawl_node w k s = Inr (True, s1)"
    and rest: "state_after w (Suc k) m s1 = Some s_n"
    by (auto split: sum.splits bool.splits)
  from Suc.prems(2) have "crawl_node w (Suc k + m) s_n = Inr (False, s')" by simp
  from Suc.IH [OF rest this mf] s1 show ?case by (simp add: f)
qed

lemma state_after_fields:
  "state_after w k m s = Some s' \<Longrightarrow>
   find_called s' = find_called s \<and> entry_point s' = entry_point s
   \<and> persistence (found_resources s') = persistence (found_resources s)"
proof (induction m arbitrary: k s)
  case 0
  then show ?case by simp
next
  case (Suc m)
  from Suc.prems obtain s1 where s1: "crawl_node w k s = Inr (True, s1)"
    and rest: "state_after w (Suc k) m s1 = Some s'"
    by (auto split: sum.splits bool.splits)
  from Suc.IH [OF rest] crawl_node_fields [OF s1] show ?case by simp
qed

lemma set_query_fields [simp]:
  "find_called (set_query ns rt pl ti ex s) = find_called s"
  "found_resources (set_query ns rt pl ti ex s) = found_resources s"
  "entry_point (set_query ns rt pl ti ex s) = entry_point s"
  by (simp_all add: set_query_def Let_def split: option.splits)




subsection \<open>Delivery and the discovery set\<close>













text \<open>
  C10. \<open>find\<close> sets \<open>find_called\<close> and nothing resets it: it is set in the instance that
  \<open>find\<close> returns and at every step of a later run of \<open>crawl\<close> on that instance; such a run
  that reaches a step that delivers returns at that step, given the fuel for it.
\<close>

theorem find_called_stays_set:
  assumes "find w fuel ns rt pl ti ex self = Some (Inr (r, s1))"
      and "state_after w' 0 j (set_query ns' rt' pl' ti' ex' s1) = Some s_j"
      and "delivers w' j s_j"
      and "j < fuel'"
  shows "find_called s1 \<and> find_called s_j
       \<and> (\<exists>s2. crawl w' fuel' ns' rt' pl' ti' ex' s1 = Some (Inr (j, s2)) \<and> find_called s2)"
proof -
  from assms(1) obtain n where
    "crawl_loop w fuel 0 (set_query ns rt pl ti ex (self\<lparr>find_called := True\<rparr>)) = Some (Inr (n, s1))"
    by (auto simp: find_def crawl_def split: option.splits sum.splits if_splits list.splits)
  from crawl_loop_stops_at [OF this] obtain s_n where
    a: "state_after w 0 n (set_query ns rt pl ti ex (self\<lparr>find_called := True\<rparr>)) = Some s_n"
    and b: "crawl_node w n s_n = Inr (False, s1)"
    by auto
  from state_after_fields [OF a] crawl_node_fields(1) [OF b] have fc1: "find_called s1"
    by simp
  with state_after_fields [OF assms(2)] have fcj: "find_called s_j" by simp
  let ?s2 = "snd (push_uris_to_queue (clock w' j) (step_matches w' j s_j) (visit w' s_j))"
  have stop: "crawl_node w' (0 + j) s_j = Inr (False, ?s2)"
    using delivering_step_stops(1) [OF assms(3) fcj] by simp
  from crawl_loop_reaches [OF assms(2) stop assms(4)]
  have "crawl w' fuel' ns' rt' pl' ti' ex' s1 = Some (Inr (j, ?s2))"
    by (simp add: crawl_def)
  moreover have "find_called ?s2" using fcj by simp
  ultimately show ?thesis using fc1 fcj by blast
qed

theorem find_called_stays_set_witness:
  "find small_world 5 [] (Some ''foo'') None None None fresh = Some (Inr (Some ''B'', after_find))
   \<and> state_after small_world 0 0 (set_query [] None None None None after_find)
       = Some (set_query [] None None None None after_find)
   \<and> delivers small_world 0 (set_query [] None None None None after_find)
   \<and> find_called after_find
   \<and> (\<exists>s2. crawl small_world 9 [] None None None None after_find = Some (Inr (0, s2))
            \<and> find_called s2)"
proof -
  have f: "find small_world 5 [] (Some ''foo'') None None None fresh = Some (Inr (Some ''B'', after_find))"
    by code_simp
  have r: "state_after small_world 0 0 (set_query [] None None None None after_find)
       = Some (set_query [] None None None None after_find)"
    by simp
  have d: "delivers small_world 0 (set_query [] None None None None after_find)"
    by code_simp
  from find_called_stays_set [OF f r d, of 9] f r d show ?thesis
    by simp
qed

subsection \<open>Namespace shorthand\<close>

text \<open>
  C7. The claim: the relations named with the shorthand of a curie are moved to their full
  names and, when deletion is enabled, the curies section is removed; the docstring of
  \<open>apply_hal_curies\<close> says the same. Where the full name is already a key of the link
  section, moving the relation makes the section one entry smaller; the loop over its keys
  then raises RuntimeError, the bare \<open>except\<close> catches it, and the deletion of the curies
  section is never reached: with deletion enabled, \<open>clash_doc\<close> comes back with the relation
  moved and the curies section still there.
\<close>

theorem apply_hal_curies_keeps_curies_on_clash:
  "apply_hal_curies clash_doc True
     = JObj [(''_links'',
              JObj [(''curies'', JArr [JObj site_curie]),
                    (''http://x/rels/a'', hal_link ''B'' ''b'')])]
   \<and> curie_loop (JObj site_curie) 3 [''curies'', ''ch:a'', ''http://x/rels/a'']
         [(''curies'', JArr [JObj site_curie]), (''ch:a'', hal_link ''B'' ''b''),
          (''http://x/rels/a'', hal_link ''A'' ''a'')]
       = (Some RuntimeError,
          [(''curies'', JArr [JObj site_curie]), (''http://x/rels/a'', hal_link ''B'' ''b'')])"
  by code_simp

end
